theory Spec2Isabelle
  imports Main "HOL-Library.Word"
begin

section \<open>Cluster registry and scheduler (controller/cluster\_list.go)\<close>

subsection \<open>Data model\<close>

text \<open>
  Modelled from the spec: the declarations of \<open>api.Cluster\<close> and of the constants
  \<open>statusDecommissioned\<close> and \<open>statusDecommissionRequested\<close> are not among the
  sources. The spec gives the lifecycle status as one of \<open>Active\<close>,
  \<open>DecommissionRequested\<close>, \<open>Decommissioned\<close>; the code only ever compares the
  field with the two constants.
\<close>

datatype lifecycle = Active | DecommissionRequested | Decommissioned

definition statusDecommissioned :: lifecycle where
  "statusDecommissioned = Decommissioned"

definition statusDecommissionRequested :: lifecycle where
  "statusDecommissionRequested = DecommissionRequested"

text \<open>The fields of \<open>api.Cluster\<close> that the registry reads.\<close>

record ClusterStatus =
  CurrentVersion :: string
  NextVersion :: string

record Cluster =
  ID :: string
  InfrastructureAccount :: string
  LifecycleStatus :: lifecycle
  Status :: ClusterStatus

text \<open>
  \<open>clusterInfo\<close>: \<open>lastProcessed\<close> is a \<open>time.Time\<close>, modelled as the number of
  nanoseconds since the Unix epoch, so that \<open>time.Unix(0, 0)\<close> is \<open>0\<close> and
  \<open>a.Before(b)\<close> is \<open>a < b\<close>. The clock is not part of the registry: the instant
  read by \<open>time.Now()\<close> is an argument of the operation that reads it.
\<close>

record clusterInfo =
  lastProcessed :: int
  processing :: bool
  cluster :: Cluster

text \<open>
  \<open>ClusterList\<close>: the Go map \<open>map[string]*clusterInfo\<close> is a partial function from
  IDs. Every \<open>*clusterInfo\<close> is allocated by \<open>UpdateAvailable\<close> and stored under one
  key only, so the key stands for the pointer and an assignment through the pointer is
  an update of the map at that key. The account filter (\<open>config.IncludeExcludeFilter\<close>,
  declared outside the sources) is its predicate \<open>Allowed\<close>. All three operations run
  under the mutex from their first to their last statement, so each is one atomic
  transition of the registry.
\<close>

type_synonym registry = "string \<rightharpoonup> clusterInfo"

record ClusterList =
  accountFilter :: "string \<Rightarrow> bool"
  clusters :: registry

definition NewClusterList :: "(string \<Rightarrow> bool) \<Rightarrow> ClusterList" where
  "NewClusterList f = \<lparr>accountFilter = f, clusters = Map.empty\<rparr>"

text \<open>
  Go visits the keys of a map in an order that it does not specify and that changes from
  one \<open>range\<close> statement to the next. A \<open>range\<close> loop therefore takes the order of
  its visits as an argument: a list of the keys of the map, each once.
\<close>

definition range_order :: "registry \<Rightarrow> string list \<Rightarrow> bool" where
  "range_order m ks \<longleftrightarrow> distinct ks \<and> set ks = dom m"

subsection \<open>UpdateAvailable\<close>

text \<open>
  The first loop, over the slice \<open>availableClusters\<close>. Its state is the set
  \<open>availableClusterIds\<close> (a \<open>map[string]bool\<close> that only ever receives \<open>true\<close>
  and is only asked for the presence of a key) and the map of the registry.
\<close>

fun ingest :: "(string \<Rightarrow> bool) \<Rightarrow> Cluster list \<Rightarrow> string set \<times> registry \<Rightarrow> string set \<times> registry" where
  "ingest allowed [] st = st"
| "ingest allowed (c # cs) (availableClusterIds, m) =
     (if LifecycleStatus c = statusDecommissioned then ingest allowed cs (availableClusterIds, m)
      else if \<not> allowed (InfrastructureAccount c) then ingest allowed cs (availableClusterIds, m)
      else ingest allowed cs
        (insert (ID c) availableClusterIds,
         (case m (ID c) of
            Some existing \<Rightarrow>
              if \<not> processing existing then m(ID c \<mapsto> existing\<lparr>cluster := c\<rparr>) else m
          | None \<Rightarrow> m(ID c \<mapsto> \<lparr>lastProcessed = 0, processing = False, cluster = c\<rparr>))))"

text \<open>
  The second loop, over the map in the order \<open>ks\<close>. Deleting the entry being visited
  is safe in Go; a key without an entry does not occur in an order of the map.
\<close>

fun evict :: "string set \<Rightarrow> string list \<Rightarrow> registry \<Rightarrow> registry" where
  "evict availableClusterIds [] m = m"
| "evict availableClusterIds (k # ks) m =
     (case m k of
        None \<Rightarrow> evict availableClusterIds ks m
      | Some c \<Rightarrow>
          if processing c then evict availableClusterIds ks m
          else if k \<notin> availableClusterIds then evict availableClusterIds ks (m(k := None))
          else evict availableClusterIds ks m)"

definition UpdateAvailable :: "ClusterList \<Rightarrow> Cluster list \<Rightarrow> string list \<Rightarrow> ClusterList" where
  "UpdateAvailable clusterList availableClusters ks =
     (case ingest (accountFilter clusterList) availableClusters ({}, clusters clusterList) of
        (availableClusterIds, m) \<Rightarrow> clusterList\<lparr>clusters := evict availableClusterIds ks m\<rparr>)"

subsection \<open>updatePriority and SelectNext\<close>

definition updatePriorityNormal :: "32 word" where
  "updatePriorityNormal = 0"

definition updatePriorityDecommissionRequested :: "32 word" where
  "updatePriorityDecommissionRequested = 1"

definition updatePriorityAlreadyUpdating :: "32 word" where
  "updatePriorityAlreadyUpdating = 2"

definition updatePriority :: "Cluster \<Rightarrow> 32 word" where
  "updatePriority c =
     (if NextVersion (Status c) \<noteq> [] \<and> NextVersion (Status c) \<noteq> CurrentVersion (Status c)
        then updatePriorityAlreadyUpdating
      else if LifecycleStatus c = statusDecommissionRequested
        then updatePriorityDecommissionRequested
      else updatePriorityNormal)"

text \<open>
  The loop of \<open>SelectNext\<close>. \<open>nextCluster\<close> is a pointer into the map: \<open>None\<close> is
  \<open>nil\<close>, and \<open>Some (k, c)\<close> is the pointer stored under the key \<open>k\<close> together with
  the record \<open>c\<close> it points to, which the loop does not change.
\<close>

fun scan :: "registry \<Rightarrow> string list \<Rightarrow> (string \<times> clusterInfo) option \<times> 32 word
    \<Rightarrow> (string \<times> clusterInfo) option \<times> 32 word" where
  "scan m [] st = st"
| "scan m (k # ks) (nextCluster, nextClusterPriority) =
     (case m k of
        None \<Rightarrow> scan m ks (nextCluster, nextClusterPriority)
      | Some c \<Rightarrow>
          if processing c then scan m ks (nextCluster, nextClusterPriority)
          else
            (case nextCluster of
               None \<Rightarrow> scan m ks (Some (k, c), updatePriority (cluster c))
             | Some (n, nc) \<Rightarrow>
                 let priority = updatePriority (cluster c) in
                 if priority > nextClusterPriority \<or>
                    (priority = nextClusterPriority \<and> lastProcessed c < lastProcessed nc)
                 then scan m ks (Some (k, c), priority)
                 else scan m ks (Some (n, nc), nextClusterPriority)))"

definition SelectNext :: "ClusterList \<Rightarrow> string list \<Rightarrow> Cluster option \<times> ClusterList" where
  "SelectNext clusterList ks =
     (case fst (scan (clusters clusterList) ks (None, 0)) of
        None \<Rightarrow> (None, clusterList)
      | Some (k, nextCluster) \<Rightarrow>
          (Some (cluster nextCluster),
           clusterList\<lparr>clusters := (clusters clusterList)(k \<mapsto> nextCluster\<lparr>processing := True\<rparr>)\<rparr>))"

subsection \<open>ClusterProcessed\<close>

definition ClusterProcessed :: "ClusterList \<Rightarrow> string \<Rightarrow> int \<Rightarrow> ClusterList" where
  "ClusterProcessed clusterList ident now =
     (case clusters clusterList ident of
        Some c \<Rightarrow>
          clusterList\<lparr>clusters :=
            (clusters clusterList)(ident \<mapsto> c\<lparr>processing := False, lastProcessed := now\<rparr>)\<rparr>
      | None \<Rightarrow> clusterList)"

subsection \<open>Auxiliary definitions\<close>

definition key_inv :: "registry \<Rightarrow> bool" where
  "key_inv m \<longleftrightarrow> (\<forall>k e. m k = Some e \<longrightarrow> ID (cluster e) = k)"

definition accepted :: "(string \<Rightarrow> bool) \<Rightarrow> Cluster list \<Rightarrow> Cluster list" where
  "accepted allowed cs =
     filter (\<lambda>c. LifecycleStatus c \<noteq> statusDecommissioned \<and> allowed (InfrastructureAccount c)) cs"

definition ingest_body :: "(string \<Rightarrow> bool) \<Rightarrow> Cluster \<Rightarrow> registry \<Rightarrow> registry" where
  "ingest_body f c m =
     (if LifecycleStatus c = statusDecommissioned \<or> \<not> f (InfrastructureAccount c) then m
      else case m (ID c) of
             Some existing \<Rightarrow> if \<not> processing existing then m(ID c \<mapsto> existing\<lparr>cluster := c\<rparr>) else m
           | None \<Rightarrow> m(ID c \<mapsto> \<lparr>lastProcessed = 0, processing = False, cluster = c\<rparr>))"

definition ingested :: "ClusterList \<Rightarrow> Cluster list \<Rightarrow> registry" where
  "ingested cl cs = snd (ingest (accountFilter cl) cs ({}, clusters cl))"

definition scan_inv :: "registry \<Rightarrow> (string \<times> clusterInfo) option \<times> 32 word \<Rightarrow> bool" where
  "scan_inv m st \<longleftrightarrow>
     (case fst st of None \<Rightarrow> True
      | Some (k, c) \<Rightarrow> m k = Some c \<and> \<not> processing c \<and> snd st = updatePriority (cluster c))"

definition outranks :: "clusterInfo \<Rightarrow> clusterInfo \<Rightarrow> bool" where
  "outranks c c' \<longleftrightarrow>
     updatePriority (cluster c') < updatePriority (cluster c) \<or>
     (updatePriority (cluster c') = updatePriority (cluster c) \<and> lastProcessed c \<le> lastProcessed c')"

definition scan_body :: "registry \<Rightarrow> string \<Rightarrow> (string \<times> clusterInfo) option \<times> 32 word
    \<Rightarrow> (string \<times> clusterInfo) option \<times> 32 word" where
  "scan_body m k st =
     (case m k of
        None \<Rightarrow> st
      | Some c \<Rightarrow>
          if processing c then st
          else
            (case fst st of
               None \<Rightarrow> (Some (k, c), updatePriority (cluster c))
             | Some (n, nc) \<Rightarrow>
                 if updatePriority (cluster c) > snd st \<or>
                    (updatePriority (cluster c) = snd st \<and> lastProcessed c < lastProcessed nc)
                 then (Some (k, c), updatePriority (cluster c))
                 else st))"

datatype call = Ingest "Cluster list" "string list" | Select "string list" | Processed string int

fun exec :: "call \<Rightarrow> ClusterList \<Rightarrow> ClusterList" where
  "exec (Ingest availableClusters ks) cl = UpdateAvailable cl availableClusters ks"
| "exec (Select ks) cl = snd (SelectNext cl ks)"
| "exec (Processed ident now) cl = ClusterProcessed cl ident now"

definition run :: "ClusterList \<Rightarrow> call list \<Rightarrow> ClusterList" where
  "run cl calls = fold exec calls cl"

definition allow_all :: "string \<Rightarrow> bool" where
  "allow_all account = True"

definition cluster_x :: Cluster where
  "cluster_x = \<lparr>ID = ''x'', InfrastructureAccount = ''a1'', LifecycleStatus = Active,
     Status = \<lparr>CurrentVersion = ''v1'', NextVersion = []\<rparr>\<rparr>"

definition registry_x :: ClusterList where
  "registry_x = run (NewClusterList allow_all) [Ingest [cluster_x] [''x'']]"

definition midUpdate :: "Cluster \<Rightarrow> bool" where
  "midUpdate c \<longleftrightarrow>
     NextVersion (Status c) \<noteq> [] \<and> NextVersion (Status c) \<noteq> CurrentVersion (Status c)"

definition eligible :: "ClusterList \<Rightarrow> string set" where
  "eligible cl = {k. \<exists>e. clusters cl k = Some e \<and> \<not> processing e}"

definition cluster_a :: Cluster where
  "cluster_a = \<lparr>ID = ''a'', InfrastructureAccount = ''a1'', LifecycleStatus = Active,
     Status = \<lparr>CurrentVersion = ''v1'', NextVersion = []\<rparr>\<rparr>"

definition cluster_b :: Cluster where
  "cluster_b = \<lparr>ID = ''b'', InfrastructureAccount = ''a1'',
     LifecycleStatus = DecommissionRequested,
     Status = \<lparr>CurrentVersion = ''v1'', NextVersion = ''v1''\<rparr>\<rparr>"

definition cluster_c :: Cluster where
  "cluster_c = \<lparr>ID = ''c'', InfrastructureAccount = ''a1'', LifecycleStatus = Active,
     Status = \<lparr>CurrentVersion = ''v1'', NextVersion = ''v2''\<rparr>\<rparr>"

definition entry :: "int \<Rightarrow> bool \<Rightarrow> Cluster \<Rightarrow> clusterInfo" where
  "entry t p c = \<lparr>lastProcessed = t, processing = p, cluster = c\<rparr>"

definition registry_abc :: ClusterList where
  "registry_abc =
     UpdateAvailable (NewClusterList allow_all) [cluster_a, cluster_b, cluster_c]
       [''a'', ''b'', ''c'']"

definition cluster_y :: Cluster where
  "cluster_y = \<lparr>ID = ''y'', InfrastructureAccount = ''a1'', LifecycleStatus = Active,
     Status = \<lparr>CurrentVersion = ''v1'', NextVersion = ''v1''\<rparr>\<rparr>"

definition registry_xy :: ClusterList where
  "registry_xy =
     run (NewClusterList allow_all)
       [Ingest [cluster_x, cluster_y] [''x'', ''y''], Select [''x'', ''y''], Processed ''x'' 7,
        Select [''y'', ''x''], Processed ''y'' 9]"

definition cluster_x_gone :: Cluster where
  "cluster_x_gone = cluster_x\<lparr>LifecycleStatus := Decommissioned\<rparr>"

definition registry_x_busy :: ClusterList where
  "registry_x_busy = snd (SelectNext registry_x [''x''])"

definition registry_xy_busy :: ClusterList where
  "registry_xy_busy = snd (SelectNext registry_xy [''y'', ''x''])"

definition cluster_d :: Cluster where
  "cluster_d = \<lparr>ID = ''d'', InfrastructureAccount = ''a1'',
     LifecycleStatus = DecommissionRequested,
     Status = \<lparr>CurrentVersion = ''v1'', NextVersion = ''v2''\<rparr>\<rparr>"




section \<open>Versioned config source (channel/git.go)\<close>

subsection \<open>Data model and the operating system\<close>

text \<open>
  Go strings are byte sequences; they are modelled as \<open>string\<close>, one \<open>char\<close> per
  byte. The errors the operations return are values: the failure of \<open>os.Getwd\<close>, a
  path that does not exist (what \<open>os.IsNotExist\<close> recognises), the error
  \<open>getRepoName\<close> builds from the URI, a failed subprocess with its arguments, and any
  other error of the operating system.
\<close>

datatype error =
    GetwdError
  | NotExist string
  | RepoNameError string
  | ExecError "string list"
  | OtherError string

definition IsNotExist :: "error \<Rightarrow> bool" where
  "IsNotExist err = (case err of NotExist p \<Rightarrow> True | _ \<Rightarrow> False)"

text \<open>
  \<open>Git\<close> without its mutex (the lock only serialises \<open>Update\<close>), and \<open>Config\<close>,
  whose declaration is outside the sources and of which the code sets \<open>Version\<close>
  and \<open>Path\<close>.
\<close>

record Git =
  workdir :: string
  repositoryURL :: string
  repoName :: string
  repoDir :: string
  sshPrivateKeyFile :: string


text \<open>
  What the code asks of its environment is not code of the repository: the working
  directory (\<open>os.Getwd\<close>, called by \<open>filepath.Abs\<close>), \<open>os.Stat\<close>,
  \<open>os.RemoveAll\<close>, and the \<open>git\<close> subprocess, which \<open>cmd\<close> starts through
  \<open>command.Run\<close> and \<open>currentRevision\<close> through \<open>exec.Command\<close>. They are
  parameters of the model: functions on a state \<open>'w\<close> of the world (file system,
  network, remote repository) that return their result and, where they can change it, the
  new state. \<open>Run env args w\<close> runs \<open>git\<close> with the arguments \<open>args\<close> and the
  environment \<open>env\<close> (the empty list stands for the inherited environment) and returns
  its standard output or its error.
\<close>

record 'w os =
  Getwd :: "'w \<Rightarrow> error + string"
  Stat :: "string \<Rightarrow> 'w \<Rightarrow> error + unit"
  RemoveAll :: "string \<Rightarrow> 'w \<Rightarrow> error option \<times> 'w"
  Run :: "string list \<Rightarrow> string list \<Rightarrow> 'w \<Rightarrow> (error + string) \<times> 'w"

subsection \<open>path.Clean, path.Join and filepath.Abs\<close>

text \<open>
  \<open>Clean\<close> follows the loop of Go's \<open>path.Clean\<close>: \<open>path\<close> is the part of the
  input not yet read, \<open>out\<close> the output buffer, \<open>dotdot\<close> the index up to which the
  buffer must not be cut back. \<open>backtrack\<close> is the inner loop that drops the last
  element of the buffer, from the index \<open>w\<close> of its last byte downwards. On Unix
  \<open>filepath.Clean\<close> and \<open>filepath.Join\<close> are the same functions.
\<close>

function backtrack :: "nat \<Rightarrow> string \<Rightarrow> nat \<Rightarrow> nat" where
  "backtrack dotdot out w =
     (if w > dotdot \<and> out ! w \<noteq> CHR ''/'' then backtrack dotdot out (w - 1) else w)"
  by pat_completeness auto
termination
  by (relation "measure (\<lambda>(dotdot, out, w). w)") auto

text \<open>Each pass of the loop reads at least one byte of the path.\<close>

lemma clean_measure_rest:
  "path = c # rest \<Longrightarrow>
     ((r, rest, o1, d1), (r, path, o2, d2)) \<in> measure (\<lambda>(rooted, path, out, dotdot). length path)"
  by simp

lemma clean_measure_tl:
  "path = c # rest \<Longrightarrow>
     ((r, tl rest, o1, d1), (r, path, o2, d2)) \<in> measure (\<lambda>(rooted, path, out, dotdot). length path)"
  by (cases rest) simp_all

lemma clean_measure_dropWhile:
  "path = c # rest \<Longrightarrow> c \<noteq> CHR ''/'' \<Longrightarrow>
     ((r, dropWhile (\<lambda>x. x \<noteq> CHR ''/'') path, o1, d1), (r, path, o2, d2))
       \<in> measure (\<lambda>(rooted, path, out, dotdot). length path)"
  by (simp add: le_imp_less_Suc length_dropWhile_le)

function clean_loop :: "bool \<Rightarrow> string \<Rightarrow> string \<Rightarrow> nat \<Rightarrow> string" where
  "clean_loop rooted path out dotdot =
     (case path of
        [] \<Rightarrow> out
      | c # rest \<Rightarrow>
          if c = CHR ''/'' then clean_loop rooted rest out dotdot
          else if c = CHR ''.'' \<and> (rest = [] \<or> hd rest = CHR ''/'')
            then clean_loop rooted rest out dotdot
          else if c = CHR ''.'' \<and> hd rest = CHR ''.'' \<and> (tl rest = [] \<or> hd (tl rest) = CHR ''/'')
            then
              (if length out > dotdot
                 then clean_loop rooted (tl rest) (take (backtrack dotdot out (length out - 1)) out) dotdot
               else if \<not> rooted
                 then clean_loop rooted (tl rest)
                        ((if length out > 0 then out @ ''/'' else out) @ ''..'')
                        (length ((if length out > 0 then out @ ''/'' else out) @ ''..''))
               else clean_loop rooted (tl rest) out dotdot)
          else clean_loop rooted (dropWhile (\<lambda>x. x \<noteq> CHR ''/'') path)
                 ((if rooted \<and> length out \<noteq> 1 \<or> \<not> rooted \<and> length out \<noteq> 0
                     then out @ ''/'' else out) @ takeWhile (\<lambda>x. x \<noteq> CHR ''/'') path)
                 dotdot)"
  by pat_completeness auto
termination
  apply (relation "measure (\<lambda>(rooted, path, out, dotdot). length path)")
        apply simp
       apply (erule clean_measure_rest)
      apply (erule clean_measure_rest)
     apply (erule clean_measure_tl)
    apply (erule clean_measure_tl)
   apply (erule clean_measure_tl)
  apply (erule (1) clean_measure_dropWhile)
  done

declare backtrack.simps [simp del]
declare clean_loop.simps [simp del]

definition Clean :: "string \<Rightarrow> string" where
  "Clean path =
     (if path = [] then ''.''
      else
        let rooted = (hd path = CHR ''/'');
            out = clean_loop rooted (if rooted then tl path else path)
                    (if rooted then ''/'' else []) (if rooted then 1 else 0)
        in if out = [] then ''.'' else out)"

text \<open>
  \<open>Join\<close> joins the elements from the first non-empty one on with slashes and cleans
  the result. \<open>Abs\<close> is \<open>filepath.Abs\<close> on Unix: an absolute path is cleaned, any
  other is joined to the working directory, and the failure of \<open>os.Getwd\<close> is returned.
\<close>

definition joinWith :: "string \<Rightarrow> string list \<Rightarrow> string" where
  "joinWith sep elems = concat (case elems of [] \<Rightarrow> [] | e # es \<Rightarrow> e # map (\<lambda>x. sep @ x) es)"

fun Join :: "string list \<Rightarrow> string" where
  "Join [] = []"
| "Join (e # elem) = (if e \<noteq> [] then Clean (joinWith ''/'' (e # elem)) else Join elem)"

definition Abs :: "'w os \<Rightarrow> string \<Rightarrow> 'w \<Rightarrow> error + string" where
  "Abs sys path w =
     (if path \<noteq> [] \<and> hd path = CHR ''/'' then Inr (Clean path)
      else case Getwd sys w of
             Inl err \<Rightarrow> Inl err
           | Inr wd \<Rightarrow> Inr (Join [wd, path]))"

subsection \<open>getRepoName and NewGit\<close>

text \<open>
  \<open>repoNameRE\<close> is the regular expression \<^verbatim>\<open>/?([\w-]+)(.git)?$\<close>, and
  \<open>FindStringSubmatch\<close> is its leftmost-first match as Go's \<open>regexp\<close> finds it: the
  first start position from the left at which the expression matches, with the greedy
  choices tried first. \<open>word_class\<close> is the class \<^verbatim>\<open>[\w-]\<close>.
  \<open>match_here\<close> matches at the start of its argument: the optional slash, then the
  run of class characters, tried from its longest length down by \<open>try_lengths\<close>, then
  the optional group (any character but a newline, followed by \<open>git\<close>) tried before
  its absence, then the end of the text. The result is the match with its two groups, or
  the empty list for Go's \<open>nil\<close>. The dot takes one \<open>char\<close>, which is Go's dot
  on ASCII text (in general it takes a whole UTF-8 sequence); whether the expression
  matches at all does not depend on it, since \<open>git\<close> ends in a class character.
\<close>

definition word_class :: "char \<Rightarrow> bool" where
  "word_class c \<longleftrightarrow>
     (let n = (of_char c :: nat) in
      (48 \<le> n \<and> n \<le> 57) \<or> (65 \<le> n \<and> n \<le> 90) \<or> (97 \<le> n \<and> n \<le> 122) \<or>
      c = CHR ''_'' \<or> c = CHR ''-'')"

primrec try_lengths :: "string \<Rightarrow> nat \<Rightarrow> (string \<times> string) option" where
  "try_lengths r 0 = None"
| "try_lengths r (Suc n) =
     (let rest = drop (Suc n) r in
      if length rest = 4 \<and> hd rest \<noteq> CHR 0x0A \<and> tl rest = ''git''
        then Some (take (Suc n) r, rest)
      else if rest = [] then Some (take (Suc n) r, [])
      else try_lengths r n)"

definition match_here :: "string \<Rightarrow> string list option" where
  "match_here s =
     (let slash = (if s \<noteq> [] \<and> hd s = CHR ''/'' then ''/'' else []);
          r = drop (length slash) s
      in case try_lengths r (length (takeWhile word_class r)) of
           None \<Rightarrow> None
         | Some (name, ext) \<Rightarrow> Some [slash @ name @ ext, name, ext])"

fun FindStringSubmatch :: "string \<Rightarrow> string list" where
  "FindStringSubmatch [] = []"
| "FindStringSubmatch (c # cs) =
     (case match_here (c # cs) of
        Some m \<Rightarrow> m
      | None \<Rightarrow> FindStringSubmatch cs)"

definition getRepoName :: "string \<Rightarrow> error + string" where
  "getRepoName repoURI =
     (let match = FindStringSubmatch repoURI in
      if length match \<noteq> 3 then Inl (RepoNameError repoURI) else Inr (match ! 1))"

text \<open>
  \<open>NewGit\<close> returns the world as it received it: it calls \<open>filepath.Abs\<close>, which
  only reads the working directory, and \<open>getRepoName\<close>, and nothing else.
\<close>

definition NewGit :: "'w os \<Rightarrow> string \<Rightarrow> string \<Rightarrow> string \<Rightarrow> 'w \<Rightarrow> (error + Git) \<times> 'w" where
  "NewGit sys workdir' repositoryURL' sshPrivateKeyFile' w =
     (case Abs sys workdir' w of
        Inl err \<Rightarrow> (Inl err, w)
      | Inr absWorkdir \<Rightarrow>
          (case getRepoName repositoryURL' of
             Inl err \<Rightarrow> (Inl err, w)
           | Inr repoName' \<Rightarrow>
               (Inr \<lparr>workdir = absWorkdir, repositoryURL = repositoryURL',
                     repoName = repoName', repoDir = Join [absWorkdir, repoName'],
                     sshPrivateKeyFile = sshPrivateKeyFile'\<rparr>, w)))"

subsection \<open>Get, Delete and Update\<close>

text \<open>
  \<open>fmt_d\<close> is the verb \<^verbatim>\<open>%d\<close> of \<open>fmt.Sprintf\<close> on a signed integer.
  The instant \<open>time.Now().UTC().UnixNano()\<close> is an \<open>int64\<close> read from the clock: it
  is the argument \<open>now\<close> of \<open>localClone\<close> and \<open>Get\<close>, a 64-bit word printed as
  the signed number it holds. \<open>checkoutName\<close> is the directory name
  \<^verbatim>\<open>%s_%s_%d\<close> of \<open>localClone\<close>.
\<close>

function digits :: "nat \<Rightarrow> string" where
  "digits n = (if n < 10 then [char_of (48 + n)] else digits (n div 10) @ [char_of (48 + n mod 10)])"
  by pat_completeness auto
termination
  by (relation "measure id") auto

declare digits.simps [simp del]

definition fmt_d :: "int \<Rightarrow> string" where
  "fmt_d i = (if i < 0 then CHR ''-'' # digits (nat (- i)) else digits (nat i))"

definition cmd :: "'w os \<Rightarrow> Git \<Rightarrow> string list \<Rightarrow> 'w \<Rightarrow> error option \<times> 'w" where
  "cmd sys g args w =
     (case Run sys
             (if sshPrivateKeyFile g \<noteq> []
                then [''GIT_SSH_COMMAND=ssh -i '' @ sshPrivateKeyFile g @
                        '' -o '' @ [CHR 0x27] @ ''StrictHostKeyChecking no'' @ [CHR 0x27]]
              else [])
             args w of
        (Inl err, w') \<Rightarrow> (Some err, w')
      | (Inr out, w') \<Rightarrow> (None, w'))"








definition Update :: "'w os \<Rightarrow> Git \<Rightarrow> 'w \<Rightarrow> error option \<times> 'w" where
  "Update sys g w =
     (case Stat sys (repoDir g) w of
        Inl err \<Rightarrow>
          if \<not> IsNotExist err then (Some err, w)
          else
            (case cmd sys g [''clone'', ''--mirror'', repositoryURL g, repoDir g] w of
               (Some err', w1) \<Rightarrow> (Some err', w1)
             | (None, w1) \<Rightarrow>
                 cmd sys g [''--git-dir'', repoDir g, ''remote'', ''update'', ''--prune''] w1)
      | Inr info \<Rightarrow>
          cmd sys g [''--git-dir'', repoDir g, ''remote'', ''update'', ''--prune''] w)"



subsection \<open>A small world for concrete runs\<close>

text \<open>
  For evaluating the operations: a world that is the working directory and the set of
  paths that exist. Its \<open>git clone\<close> fails when the mirror is missing or the
  destination exists, its \<open>checkout\<close> and \<open>rev-parse\<close> need the directory, and its
  \<open>RemoveAll\<close> removes a path and everything below it and does nothing when the path
  does not exist.
\<close>

record world =
  cwd :: "string option"
  files :: "string set"

definition sim_Getwd :: "world \<Rightarrow> error + string" where
  "sim_Getwd w = (case cwd w of None \<Rightarrow> Inl GetwdError | Some d \<Rightarrow> Inr d)"

definition sim_Stat :: "string \<Rightarrow> world \<Rightarrow> error + unit" where
  "sim_Stat p w = (if p \<in> files w then Inr () else Inl (NotExist p))"

definition below :: "string \<Rightarrow> string \<Rightarrow> bool" where
  "below p f \<longleftrightarrow> take (Suc (length p)) f = p @ ''/''"

definition sim_RemoveAll :: "string \<Rightarrow> world \<Rightarrow> error option \<times> world" where
  "sim_RemoveAll p w =
     (if p \<in> files w then (None, w\<lparr>files := files w - {f. f = p \<or> below p f}\<rparr>)
      else (None, w))"

definition sim_Run :: "string list \<Rightarrow> string list \<Rightarrow> world \<Rightarrow> (error + string) \<times> world" where
  "sim_Run env args w =
     (case args of
        [a, src, dst] \<Rightarrow>
          if a = ''clone'' \<and> take 7 src = ''file://'' \<and> drop 7 src \<in> files w \<and> dst \<notin> files w
            then (Inr [], w\<lparr>files := insert dst (files w)\<rparr>)
          else (Inl (ExecError args), w)
      | [a, dir, b, c] \<Rightarrow>
          if a = ''-C'' \<and> dir \<in> files w \<and> b = ''checkout'' then (Inr [], w)
          else if a = ''-C'' \<and> dir \<in> files w \<and> b = ''rev-parse'' \<and> c = ''HEAD''
            then (Inr (''4f2a9c1'' @ [CHR 0x0A]), w)
          else (Inl (ExecError args), w)
      | _ \<Rightarrow> (Inl (ExecError args), w))"

definition sim_os :: "world os" where
  "sim_os = \<lparr>Getwd = sim_Getwd, Stat = sim_Stat, RemoveAll = sim_RemoveAll, Run = sim_Run\<rparr>"

definition world_x :: world where
  "world_x = \<lparr>cwd = Some ''/srv'', files = {''/work'', ''/work/repo''}\<rparr>"

definition git_x :: Git where
  "git_x = \<lparr>workdir = ''/work'', repositoryURL = ''https://example.org/team/repo.git'',
     repoName = ''repo'', repoDir = ''/work/repo'', sshPrivateKeyFile = []\<rparr>"




section \<open>Properties of the registry\<close>

lemma ingest_Cons:
  "ingest f (c # cs) (a, m) =
     ingest f cs
       (if LifecycleStatus c = statusDecommissioned \<or> \<not> f (InfrastructureAccount c) then a
        else insert (ID c) a, ingest_body f c m)"
  by (simp add: ingest_body_def)

lemma ingest_fst:
  "fst (ingest f cs (a, m)) = a \<union> ID ` set (accepted f cs)"
  by (induction cs arbitrary: a m) (auto simp: accepted_def)

lemma ingest_body_processing:
  "m k = Some e \<Longrightarrow> processing e \<Longrightarrow> ingest_body f c m k = Some e"
  by (auto simp: ingest_body_def split: option.splits)

lemma ingest_processing:
  "m k = Some e \<Longrightarrow> processing e \<Longrightarrow> snd (ingest f cs (a, m)) k = Some e"
proof (induction cs arbitrary: a m)
  case Nil then show ?case by simp
next
  case (Cons c cs)
  show ?case
    unfolding ingest_Cons
    using Cons.prems by (intro Cons.IH) (simp_all add: ingest_body_processing)
qed

lemma ingest_body_absent:
  "k \<noteq> ID c \<or> LifecycleStatus c = statusDecommissioned \<or> \<not> f (InfrastructureAccount c)
     \<Longrightarrow> ingest_body f c m k = m k"
  by (auto simp: ingest_body_def split: option.splits)

lemma ingest_absent:
  "k \<notin> ID ` set (accepted f cs) \<Longrightarrow> snd (ingest f cs (a, m)) k = m k"
proof (induction cs arbitrary: a m)
  case Nil then show ?case by simp
next
  case (Cons c cs)
  from Cons.prems have 1: "k \<notin> ID ` set (accepted f cs)"
    and 2: "k \<noteq> ID c \<or> LifecycleStatus c = statusDecommissioned \<or> \<not> f (InfrastructureAccount c)"
    by (auto simp: accepted_def)
  show ?case
    unfolding ingest_Cons using Cons.IH [OF 1] 2 by (simp add: ingest_body_absent)
qed

lemma ingest_body_key_inv: "key_inv m \<Longrightarrow> key_inv (ingest_body f c m)"
  by (auto simp: key_inv_def ingest_body_def split: option.splits)

lemma ingest_key_inv:
  "key_inv m \<Longrightarrow> key_inv (snd (ingest f cs (a, m)))"
proof (induction cs arbitrary: a m)
  case Nil then show ?case by simp
next
  case (Cons c cs)
  show ?case
    unfolding ingest_Cons by (rule Cons.IH [OF ingest_body_key_inv [OF Cons.prems]])
qed

lemma evict_apply:
  "evict a ks m k =
     (if k \<in> set ks \<and> (\<exists>c. m k = Some c \<and> \<not> processing c \<and> k \<notin> a) then None else m k)"
  by (induction ks arbitrary: m) (auto split: option.splits)

lemma outranks_trans: "outranks a b \<Longrightarrow> outranks b c \<Longrightarrow> outranks a c"
  by (auto simp: outranks_def)

lemma scan_Cons: "scan m (k # ks) st = scan m ks (scan_body m k st)"
  by (cases st) (simp add: scan_body_def Let_def split: option.splits)

lemma scan_body_inv: "scan_inv m st \<Longrightarrow> scan_inv m (scan_body m k st)"
  by (cases st) (auto simp: scan_inv_def scan_body_def split: option.splits)

lemma scan_inv_step: "scan_inv m st \<Longrightarrow> scan_inv m (scan m ks st)"
proof (induction ks arbitrary: st)
  case Nil then show ?case by simp
next
  case (Cons k ks)
  show ?case unfolding scan_Cons by (rule Cons.IH [OF scan_body_inv [OF Cons.prems]])
qed

lemma scan_body_None:
  "fst (scan_body m k st) = None \<longleftrightarrow> fst st = None \<and> (\<forall>c. m k = Some c \<longrightarrow> processing c)"
  by (cases st) (auto simp: scan_body_def split: option.splits)

lemma scan_None:
  "fst (scan m ks st) = None \<longleftrightarrow>
     fst st = None \<and> (\<forall>k \<in> set ks. \<forall>c. m k = Some c \<longrightarrow> processing c)"
proof (induction ks arbitrary: st)
  case Nil then show ?case by simp
next
  case (Cons k ks)
  show ?case unfolding scan_Cons Cons.IH scan_body_None by auto
qed

lemma scan_body_keeps:
  assumes "scan_inv m st" "fst st = Some (n, nc)"
  shows "\<exists>k' c'. fst (scan_body m k st) = Some (k', c') \<and> outranks c' nc"
  using assms
  by (cases st) (auto simp: scan_inv_def scan_body_def outranks_def split: option.splits)

lemma scan_body_visits:
  assumes "scan_inv m st" "m k = Some c" "\<not> processing c"
  shows "\<exists>k' c'. fst (scan_body m k st) = Some (k', c') \<and> outranks c' c"
  using assms
  by (cases st) (auto simp: scan_inv_def scan_body_def outranks_def split: option.splits)

lemma scan_keeps:
  "scan_inv m st \<Longrightarrow> fst st = Some (n, nc)
     \<Longrightarrow> \<exists>k c. fst (scan m ks st) = Some (k, c) \<and> outranks c nc"
proof (induction ks arbitrary: st n nc)
  case Nil then show ?case by (auto simp: outranks_def)
next
  case (Cons k ks)
  from scan_body_keeps [OF Cons.prems]
  obtain k' c' where 1: "fst (scan_body m k st) = Some (k', c')" and 2: "outranks c' nc"
    by blast
  from Cons.IH [OF scan_body_inv [OF Cons.prems(1)] 1]
  obtain k2 c2 where "fst (scan m ks (scan_body m k st)) = Some (k2, c2)" "outranks c2 c'"
    by blast
  with 2 show ?case unfolding scan_Cons by (blast intro: outranks_trans)
qed

lemma scan_visits:
  "scan_inv m st \<Longrightarrow> k \<in> set ks \<Longrightarrow> m k = Some c \<Longrightarrow> \<not> processing c
     \<Longrightarrow> \<exists>k' c'. fst (scan m ks st) = Some (k', c') \<and> outranks c' c"
proof (induction ks arbitrary: st)
  case Nil then show ?case by simp
next
  case (Cons x ks)
  show ?case
  proof (cases "x = k")
    case True
    from scan_body_visits [OF Cons.prems(1,3,4)]
    obtain k' c' where 1: "fst (scan_body m k st) = Some (k', c')" and 2: "outranks c' c"
      by blast
    from scan_keeps [OF scan_body_inv [OF Cons.prems(1)] 1]
    obtain k2 c2 where "fst (scan m ks (scan_body m k st)) = Some (k2, c2)" "outranks c2 c'"
      by blast
    with 2 True show ?thesis unfolding scan_Cons by (blast intro: outranks_trans)
  next
    case False
    with Cons.prems have "k \<in> set ks" by simp
    from Cons.IH [OF scan_body_inv [OF Cons.prems(1)] this Cons.prems(3,4)]
    show ?thesis unfolding scan_Cons .
  qed
qed

lemma SelectNext_Some:
  assumes "SelectNext cl ks = (Some c, cl')"
  shows "\<exists>k e. clusters cl k = Some e \<and> \<not> processing e \<and> cluster e = c \<and>
           cl' = cl\<lparr>clusters := (clusters cl)(k \<mapsto> e\<lparr>processing := True\<rparr>)\<rparr> \<and>
           (\<forall>k' \<in> set ks. \<forall>e'. clusters cl k' = Some e' \<and> \<not> processing e' \<longrightarrow> outranks e e')"
proof -
  let ?m = "clusters cl"
  have inv0: "scan_inv ?m (None, 0)" by (simp add: scan_inv_def)
  from assms obtain k e where fst: "fst (scan ?m ks (None, 0)) = Some (k, e)"
    and c: "c = cluster e"
    and cl': "cl' = cl\<lparr>clusters := ?m(k \<mapsto> e\<lparr>processing := True\<rparr>)\<rparr>"
    by (auto simp: SelectNext_def split: option.splits)
  from scan_inv_step [OF inv0, of ks] fst
  have e: "?m k = Some e" "\<not> processing e" by (auto simp: scan_inv_def)
  have "outranks e e'" if "k' \<in> set ks" "?m k' = Some e'" "\<not> processing e'" for k' e'
    using scan_visits [OF inv0 that] fst by auto
  with e c cl' show ?thesis by blast
qed

lemma SelectNext_None:
  "fst (SelectNext cl ks) = None \<longleftrightarrow>
     (\<forall>k \<in> set ks. \<forall>e. clusters cl k = Some e \<longrightarrow> processing e)"
proof -
  have "fst (SelectNext cl ks) = None \<longleftrightarrow> fst (scan (clusters cl) ks (None, 0)) = None"
    by (auto simp: SelectNext_def split: option.splits)
  then show ?thesis by (simp add: scan_None)
qed

lemma UpdateAvailable_clusters:
  "clusters (UpdateAvailable cl cs ks) k =
     (let m = ingested cl cs in
      if k \<in> set ks \<and> (\<exists>c. m k = Some c \<and> \<not> processing c \<and>
           k \<notin> ID ` set (accepted (accountFilter cl) cs))
      then None else m k)"
proof -
  obtain a m where am: "ingest (accountFilter cl) cs ({}, clusters cl) = (a, m)"
    by (cases "ingest (accountFilter cl) cs ({}, clusters cl)")
  have a: "a = ID ` set (accepted (accountFilter cl) cs)"
    using ingest_fst [of "accountFilter cl" cs "{}" "clusters cl"] am by simp
  show ?thesis
    by (simp add: UpdateAvailable_def ingested_def am evict_apply a Let_def)
qed

lemma UpdateAvailable_filter [simp]:
  "accountFilter (UpdateAvailable cl cs ks) = accountFilter cl"
  by (simp add: UpdateAvailable_def split: prod.splits)

lemma run_Nil [simp]: "run cl [] = cl"
  by (simp add: run_def)

lemma run_Cons [simp]: "run cl (x # xs) = run (exec x cl) xs"
  by (simp add: run_def)

lemma SelectNext_cases:
  "SelectNext cl ks = (None, cl) \<or>
   (\<exists>k e. clusters cl k = Some e \<and> \<not> processing e \<and>
      SelectNext cl ks = (Some (cluster e), cl\<lparr>clusters := (clusters cl)(k \<mapsto> e\<lparr>processing := True\<rparr>)\<rparr>))"
proof (cases "fst (SelectNext cl ks)")
  case None
  then show ?thesis by (auto simp: SelectNext_def split: option.splits)
next
  case (Some c)
  then have "SelectNext cl ks = (Some c, snd (SelectNext cl ks))"
    by (metis prod.collapse)
  from SelectNext_Some [OF this] this show ?thesis by fastforce
qed

lemma key_inv_exec: "key_inv (clusters cl) \<Longrightarrow> key_inv (clusters (exec x cl))"
proof (cases x)
  case (Ingest cs ks)
  assume "key_inv (clusters cl)"
  then have "key_inv (ingested cl cs)"
    unfolding ingested_def by (rule ingest_key_inv)
  then show ?thesis
    by (auto simp: Ingest key_inv_def UpdateAvailable_clusters Let_def split: if_splits)
next
  case (Select ks)
  assume "key_inv (clusters cl)"
  with SelectNext_cases [of cl ks] show ?thesis
    by (auto simp: Select key_inv_def split: if_splits)
next
  case (Processed ident now)
  assume "key_inv (clusters cl)"
  then show ?thesis
    by (auto simp: Processed key_inv_def ClusterProcessed_def split: option.splits)
qed

lemma key_inv_run: "key_inv (clusters cl) \<Longrightarrow> key_inv (clusters (run cl calls))"
  by (induction calls arbitrary: cl) (simp_all add: key_inv_exec)

lemma held_exec:
  assumes "clusters cl x = Some e" "processing e" "\<forall>now. call \<noteq> Processed x now"
  shows "clusters (exec call cl) x = Some e"
proof (cases call)
  case (Ingest cs ks)
  have "ingested cl cs x = Some e"
    unfolding ingested_def using assms(1,2) by (rule ingest_processing)
  with assms(2) show ?thesis
    by (simp add: Ingest UpdateAvailable_clusters)
next
  case (Select ks)
  with SelectNext_cases [of cl ks] assms show ?thesis by auto
next
  case (Processed ident now)
  with assms have "ident \<noteq> x" by auto
  with assms show ?thesis
    by (simp add: Processed ClusterProcessed_def split: option.splits)
qed

lemma held_run:
  "clusters cl x = Some e \<Longrightarrow> processing e \<Longrightarrow> \<forall>now. Processed x now \<notin> set calls
     \<Longrightarrow> clusters (run cl calls) x = Some e"
proof (induction calls arbitrary: cl)
  case Nil then show ?case by simp
next
  case (Cons c calls)
  from Cons.prems have "clusters (exec c cl) x = Some e"
    by (intro held_exec) auto
  with Cons show ?case by simp
qed

lemma key_inv_empty: "key_inv (clusters (NewClusterList f))"
  by (simp add: key_inv_def NewClusterList_def)

section \<open>The claims about the registry\<close>

text \<open>
  C1 (single ownership). Take any sequence \<open>pre\<close> of calls of \<open>UpdateAvailable\<close>,
  \<open>SelectNext\<close> and \<open>ClusterProcessed\<close> on a new registry, with any iteration orders.
  If \<open>SelectNext\<close> then returns a cluster, and after any further calls \<open>mid\<close>
  \<open>SelectNext\<close> returns a cluster with the same ID, then \<open>mid\<close> holds a call of
  \<open>ClusterProcessed\<close> for that ID. Moreover the cluster returned by \<open>SelectNext\<close> is
  the \<open>cluster\<close> field of the entry under its ID, that entry was not \<open>processing\<close>
  before the call, and the call changes the registry by setting exactly that flag.
\<close>

theorem single_ownership:
  "(SelectNext (run (NewClusterList f) pre) ks1 = (Some c1, s1) \<and>
    SelectNext (run s1 mid) ks2 = (Some c2, s2) \<and> ID c1 = ID c2
      \<longrightarrow> (\<exists>now. Processed (ID c1) now \<in> set mid))
   \<and>
   (SelectNext (run (NewClusterList f) pre) ks1 = (Some c1, s1)
      \<longrightarrow> (\<exists>e. clusters (run (NewClusterList f) pre) (ID c1) = Some e \<and> \<not> processing e \<and>
             cluster e = c1 \<and>
             clusters s1 = (clusters (run (NewClusterList f) pre))(ID c1 \<mapsto> e\<lparr>processing := True\<rparr>)))"
proof -
  let ?s0 = "run (NewClusterList f) pre"
  have inv0: "key_inv (clusters ?s0)"
    by (rule key_inv_run [OF key_inv_empty])
  have first: "\<exists>e. clusters ?s0 (ID c1) = Some e \<and> \<not> processing e \<and> cluster e = c1 \<and>
      clusters s1 = (clusters ?s0)(ID c1 \<mapsto> e\<lparr>processing := True\<rparr>)"
    if sel: "SelectNext ?s0 ks1 = (Some c1, s1)"
  proof -
    from SelectNext_Some [OF sel] obtain k e where
      e: "clusters ?s0 k = Some e" "\<not> processing e" "cluster e = c1"
      and s1: "s1 = ?s0\<lparr>clusters := (clusters ?s0)(k \<mapsto> e\<lparr>processing := True\<rparr>)\<rparr>"
      by blast
    from inv0 e have "k = ID c1" by (auto simp: key_inv_def)
    with e s1 show ?thesis by auto
  qed
  have second: "\<exists>now. Processed (ID c1) now \<in> set mid"
    if sel1: "SelectNext ?s0 ks1 = (Some c1, s1)"
      and sel2: "SelectNext (run s1 mid) ks2 = (Some c2, s2)"
      and same: "ID c1 = ID c2"
  proof (rule ccontr)
    assume "\<not> ?thesis"
    then have none: "\<forall>now. Processed (ID c1) now \<notin> set mid" by simp
    from first [OF sel1] obtain e where
      e: "clusters ?s0 (ID c1) = Some e"
      and s1: "clusters s1 = (clusters ?s0)(ID c1 \<mapsto> e\<lparr>processing := True\<rparr>)"
      by blast
    have inv1: "key_inv (clusters s1)"
      using key_inv_exec [OF inv0, of "Select ks1"] sel1 by simp
    have held: "clusters (run s1 mid) (ID c1) = Some (e\<lparr>processing := True\<rparr>)"
      by (rule held_run [OF _ _ none]) (simp_all add: s1)
    from SelectNext_Some [OF sel2] obtain k e' where
      e': "clusters (run s1 mid) k = Some e'" "\<not> processing e'" "cluster e' = c2"
      by blast
    from key_inv_run [OF inv1, of mid] e' have "k = ID c2" by (auto simp: key_inv_def)
    with e' held same show False by simp
  qed
  from first second show ?thesis by blast
qed

lemma registry_x_eval:
  "registry_x = \<lparr>accountFilter = allow_all,
     clusters = [''x'' \<mapsto> \<lparr>lastProcessed = 0, processing = False, cluster = cluster_x\<rparr>]\<rparr>"
  by (simp add: registry_x_def NewClusterList_def UpdateAvailable_def allow_all_def
      cluster_x_def statusDecommissioned_def)

lemma SelectNext_registry_x:
  "SelectNext registry_x [''x''] = (Some cluster_x, registry_x\<lparr>clusters :=
      [''x'' \<mapsto> \<lparr>lastProcessed = 0, processing = True, cluster = cluster_x\<rparr>]\<rparr>)"
  by (simp add: registry_x_eval SelectNext_def)

theorem single_ownership_witness:
  "SelectNext (run (NewClusterList allow_all) [Ingest [cluster_x] [''x'']]) [''x'']
     = (Some cluster_x, snd (SelectNext registry_x [''x''])) \<and>
   SelectNext (run (snd (SelectNext registry_x [''x''])) [Processed ''x'' 5]) [''x'']
     = (Some cluster_x,
        snd (SelectNext (run (snd (SelectNext registry_x [''x''])) [Processed ''x'' 5]) [''x''])) \<and>
   (\<exists>now. Processed (ID cluster_x) now \<in> set [Processed ''x'' 5]) \<and>
   (\<exists>e. clusters registry_x (ID cluster_x) = Some e \<and> \<not> processing e \<and> cluster e = cluster_x \<and>
        clusters (snd (SelectNext registry_x [''x''])) =
          (clusters registry_x)(ID cluster_x \<mapsto> e\<lparr>processing := True\<rparr>))"
proof -
  have 1: "SelectNext (run (NewClusterList allow_all) [Ingest [cluster_x] [''x'']]) [''x'']
     = (Some cluster_x, snd (SelectNext registry_x [''x'']))"
    using SelectNext_registry_x by (simp add: registry_x_def)
  have 2: "SelectNext (run (snd (SelectNext registry_x [''x''])) [Processed ''x'' 5]) [''x'']
     = (Some cluster_x,
        snd (SelectNext (run (snd (SelectNext registry_x [''x''])) [Processed ''x'' 5]) [''x'']))"
  proof -
    have "run (snd (SelectNext registry_x [''x''])) [Processed ''x'' 5] =
        \<lparr>accountFilter = allow_all,
         clusters = [''x'' \<mapsto> \<lparr>lastProcessed = 5, processing = False, cluster = cluster_x\<rparr>]\<rparr>"
      by (simp add: SelectNext_def ClusterProcessed_def registry_x_eval)
    then show ?thesis by (simp add: SelectNext_def)
  qed
  have idx: "ID cluster_x = ''x''" by (simp add: cluster_x_def)
  from single_ownership [of allow_all "[Ingest [cluster_x] [''x'']]" "[''x'']" cluster_x
      "snd (SelectNext registry_x [''x''])" "[Processed ''x'' 5]" "[''x'']" cluster_x
      "snd (SelectNext (run (snd (SelectNext registry_x [''x''])) [Processed ''x'' 5]) [''x''])"]
    1 2
  show ?thesis by (simp add: registry_x_def idx)
qed

lemma updatePriority_cases:
  "updatePriority c =
     (if midUpdate c then 2 else if LifecycleStatus c = DecommissionRequested then 1 else 0)"
  by (simp add: updatePriority_def midUpdate_def statusDecommissionRequested_def
      updatePriorityAlreadyUpdating_def updatePriorityDecommissionRequested_def
      updatePriorityNormal_def)

lemma eligible_iff: "k \<in> eligible cl \<longleftrightarrow> (\<exists>e. clusters cl k = Some e \<and> \<not> processing e)"
  by (simp add: eligible_def)

lemma priority_word_facts:
  "\<not> (2::32 word) \<le> 1" "\<not> (2::32 word) \<le> 0" "\<not> (1::32 word) \<le> 0"
  "(0::32 word) < 1" "(1::32 word) < 2" "(0::32 word) < 2"
  by (simp_all add: word_le_nat_alt word_less_nat_alt)

lemma SelectNext_best:
  assumes "range_order (clusters cl) ks" "SelectNext cl ks = (Some c, cl')"
  shows "\<exists>k e. clusters cl k = Some e \<and> \<not> processing e \<and> cluster e = c \<and>
           cl' = cl\<lparr>clusters := (clusters cl)(k \<mapsto> e\<lparr>processing := True\<rparr>)\<rparr> \<and>
           (\<forall>k' e'. clusters cl k' = Some e' \<and> \<not> processing e' \<longrightarrow> outranks e e')"
proof -
  from SelectNext_Some [OF assms(2)] obtain k e where
    e: "clusters cl k = Some e" "\<not> processing e" "cluster e = c"
      "cl' = cl\<lparr>clusters := (clusters cl)(k \<mapsto> e\<lparr>processing := True\<rparr>)\<rparr>"
    and best: "\<forall>k' \<in> set ks. \<forall>e'. clusters cl k' = Some e' \<and> \<not> processing e' \<longrightarrow> outranks e e'"
    by blast
  have "outranks e e'" if "clusters cl k' = Some e'" "\<not> processing e'" for k' e'
  proof -
    from assms(1) that(1) have "k' \<in> set ks" by (auto simp: range_order_def)
    with best that show ?thesis by blast
  qed
  with e show ?thesis by blast
qed

lemma SelectNext_pick:
  assumes ord: "range_order (clusters cl) ks"
    and e: "clusters cl k = Some e" "\<not> processing e"
    and strict: "\<And>k' e'. clusters cl k' = Some e' \<Longrightarrow> \<not> processing e' \<Longrightarrow> k' \<noteq> k
                   \<Longrightarrow> \<not> outranks e' e"
  shows "SelectNext cl ks =
           (Some (cluster e), cl\<lparr>clusters := (clusters cl)(k \<mapsto> e\<lparr>processing := True\<rparr>)\<rparr>)"
proof -
  from ord e(1) have "k \<in> set ks" by (auto simp: range_order_def)
  with e have "fst (SelectNext cl ks) \<noteq> None" by (auto simp: SelectNext_None)
  then obtain c where "SelectNext cl ks = (Some c, snd (SelectNext cl ks))"
    by (metis not_None_eq prod.collapse)
  from SelectNext_best [OF ord this] this obtain k0 e0 where
    e0: "clusters cl k0 = Some e0" "\<not> processing e0"
    and sel: "SelectNext cl ks =
      (Some (cluster e0), cl\<lparr>clusters := (clusters cl)(k0 \<mapsto> e0\<lparr>processing := True\<rparr>)\<rparr>)"
    and best: "\<forall>k' e'. clusters cl k' = Some e' \<and> \<not> processing e' \<longrightarrow> outranks e0 e'"
    by fastforce
  from best e have "outranks e0 e" by blast
  with strict [OF e0] have "k0 = k" by blast
  with e0 e sel show ?thesis by simp
qed

lemma SelectNext_dom: "dom (clusters (snd (SelectNext cl ks))) = dom (clusters cl)"
  using SelectNext_cases [of cl ks] by (auto split: if_splits)

text \<open>
  C2 (priority ordering). When \<open>SelectNext\<close> returns a cluster, no entry that was not
  \<open>processing\<close> has a higher priority than the returned cluster: if such an entry is
  mid-update (\<open>NextVersion\<close> non-empty and different from \<open>CurrentVersion\<close>) so is the
  returned cluster, and if such an entry is decommission-requested the returned cluster is
  mid-update or decommission-requested. In particular, when the entries that are not
  \<open>processing\<close> are a normal cluster under \<open>a\<close>, a decommission-requested one under
  \<open>b\<close> and a mid-update one under \<open>c3\<close>, three successive calls return the mid-update
  cluster, then the decommission-requested one, then the normal one, whatever the
  iteration orders and the \<open>lastProcessed\<close> values.
\<close>

theorem priority_ordering:
  "(range_order (clusters cl) ks \<and> SelectNext cl ks = (Some c, cl') \<and>
    clusters cl k' = Some e' \<and> \<not> processing e'
      \<longrightarrow> updatePriority (cluster e') \<le> updatePriority c \<and>
          (midUpdate (cluster e') \<longrightarrow> midUpdate c) \<and>
          (LifecycleStatus (cluster e') = DecommissionRequested
             \<longrightarrow> midUpdate c \<or> LifecycleStatus c = DecommissionRequested))
   \<and>
   (clusters cl a = Some ea \<and> clusters cl b = Some eb \<and> clusters cl c3 = Some ec \<and>
    eligible cl = {a, b, c3} \<and>
    \<not> midUpdate (cluster ea) \<and> LifecycleStatus (cluster ea) \<noteq> DecommissionRequested \<and>
    \<not> midUpdate (cluster eb) \<and> LifecycleStatus (cluster eb) = DecommissionRequested \<and>
    midUpdate (cluster ec) \<and>
    range_order (clusters cl) ks1 \<and>
    range_order (clusters (snd (SelectNext cl ks1))) ks2 \<and>
    range_order (clusters (snd (SelectNext (snd (SelectNext cl ks1)) ks2))) ks3
      \<longrightarrow> fst (SelectNext cl ks1) = Some (cluster ec) \<and>
          fst (SelectNext (snd (SelectNext cl ks1)) ks2) = Some (cluster eb) \<and>
          fst (SelectNext (snd (SelectNext (snd (SelectNext cl ks1)) ks2)) ks3) = Some (cluster ea))"
proof (intro conjI impI)
  assume h: "range_order (clusters cl) ks \<and> SelectNext cl ks = (Some c, cl') \<and>
    clusters cl k' = Some e' \<and> \<not> processing e'"
  then obtain k e where e: "cluster e = c" and best: "outranks e e'"
    using SelectNext_best [of cl ks c cl'] by blast
  then have le: "updatePriority (cluster e') \<le> updatePriority c"
    by (auto simp: outranks_def)
  then show "updatePriority (cluster e') \<le> updatePriority c" .
  from le show "midUpdate c" if "midUpdate (cluster e')"
    using that by (auto simp: updatePriority_cases priority_word_facts split: if_splits)
  from le show "midUpdate c \<or> LifecycleStatus c = DecommissionRequested"
    if "LifecycleStatus (cluster e') = DecommissionRequested"
    using that by (auto simp: updatePriority_cases priority_word_facts split: if_splits)
next
  assume h: "clusters cl a = Some ea \<and> clusters cl b = Some eb \<and> clusters cl c3 = Some ec \<and>
    eligible cl = {a, b, c3} \<and>
    \<not> midUpdate (cluster ea) \<and> LifecycleStatus (cluster ea) \<noteq> DecommissionRequested \<and>
    \<not> midUpdate (cluster eb) \<and> LifecycleStatus (cluster eb) = DecommissionRequested \<and>
    midUpdate (cluster ec) \<and>
    range_order (clusters cl) ks1 \<and>
    range_order (clusters (snd (SelectNext cl ks1))) ks2 \<and>
    range_order (clusters (snd (SelectNext (snd (SelectNext cl ks1)) ks2))) ks3"
  let ?m = "clusters cl"
  from h have ha: "?m a = Some ea" and hb: "?m b = Some eb" and hc: "?m c3 = Some ec"
    and els: "eligible cl = {a, b, c3}"
    and o1: "range_order ?m ks1"
    and o2: "range_order (clusters (snd (SelectNext cl ks1))) ks2"
    and o3: "range_order (clusters (snd (SelectNext (snd (SelectNext cl ks1)) ks2))) ks3"
    by blast+
  from h have pa: "updatePriority (cluster ea) = 0" and pb: "updatePriority (cluster eb) = 1"
    and pc: "updatePriority (cluster ec) = 2"
    by (simp_all add: updatePriority_cases)
  have el: "k = a \<or> k = b \<or> k = c3" if "?m k = Some e" "\<not> processing e" for k e
  proof -
    from that have "k \<in> eligible cl" unfolding eligible_iff by blast
    with els show ?thesis by simp
  qed
  from els have "a \<in> eligible cl" "b \<in> eligible cl" "c3 \<in> eligible cl" by simp_all
  with ha hb hc have na: "\<not> processing ea" and nb: "\<not> processing eb" and nc: "\<not> processing ec"
    unfolding eligible_iff by auto
  from ha hb hc pa pb pc have ne: "a \<noteq> b" "a \<noteq> c3" "b \<noteq> c3" by auto
  let ?s1 = "cl\<lparr>clusters := ?m(c3 \<mapsto> ec\<lparr>processing := True\<rparr>)\<rparr>"
  have 1: "SelectNext cl ks1 = (Some (cluster ec), ?s1)"
  proof (rule SelectNext_pick)
    show "range_order ?m ks1" by (rule o1)
    show "?m c3 = Some ec" by (rule hc)
    show "\<not> processing ec" by (rule nc)
    fix k' e' assume k': "?m k' = Some e'" "\<not> processing e'" "k' \<noteq> c3"
    from el [OF k'(1,2)] k'(3) have "k' = a \<or> k' = b" by simp
    with k'(1) ha hb have "e' = ea \<or> e' = eb" by auto
    then show "\<not> outranks e' ec" using pa pb pc by (auto simp: outranks_def priority_word_facts)
  qed
  let ?s2 = "?s1\<lparr>clusters := (clusters ?s1)(b \<mapsto> eb\<lparr>processing := True\<rparr>)\<rparr>"
  have 2: "SelectNext ?s1 ks2 = (Some (cluster eb), ?s2)"
  proof (rule SelectNext_pick)
    show "range_order (clusters ?s1) ks2" using o2 1 by simp
    show "clusters ?s1 b = Some eb" using hb ne by simp
    show "\<not> processing eb" by (rule nb)
    fix k' e' assume k': "clusters ?s1 k' = Some e'" "\<not> processing e'" "k' \<noteq> b"
    then have "k' \<noteq> c3" by auto
    with k' have m: "?m k' = Some e'" by simp
    from el [OF m k'(2)] k'(3) \<open>k' \<noteq> c3\<close> have "k' = a" by simp
    with m ha have "e' = ea" by simp
    then show "\<not> outranks e' eb" using pa pb by (auto simp: outranks_def priority_word_facts)
  qed
  have 3: "SelectNext ?s2 ks3 = (Some (cluster ea),
      ?s2\<lparr>clusters := (clusters ?s2)(a \<mapsto> ea\<lparr>processing := True\<rparr>)\<rparr>)"
  proof (rule SelectNext_pick)
    show "range_order (clusters ?s2) ks3" using o3 1 2 by simp
    show "clusters ?s2 a = Some ea" using ha ne by simp
    show "\<not> processing ea" by (rule na)
    fix k' e' assume k': "clusters ?s2 k' = Some e'" "\<not> processing e'" "k' \<noteq> a"
    then have nk: "k' \<noteq> c3" "k' \<noteq> b" by (auto split: if_splits)
    with k' have m: "?m k' = Some e'" by simp
    from el [OF m k'(2)] k'(3) nk have False by simp
    then show "\<not> outranks e' ea" ..
  qed
  from 1 show "fst (SelectNext cl ks1) = Some (cluster ec)" by simp
  from 1 2 show "fst (SelectNext (snd (SelectNext cl ks1)) ks2) = Some (cluster eb)" by simp
  from 1 2 3
  show "fst (SelectNext (snd (SelectNext (snd (SelectNext cl ks1)) ks2)) ks3) = Some (cluster ea)"
    by simp
qed

lemma registry_abc_eval:
  "registry_abc = \<lparr>accountFilter = allow_all,
     clusters = [''a'' \<mapsto> entry 0 False cluster_a, ''b'' \<mapsto> entry 0 False cluster_b,
                 ''c'' \<mapsto> entry 0 False cluster_c]\<rparr>"
  by (simp add: registry_abc_def NewClusterList_def UpdateAvailable_def allow_all_def
      cluster_a_def cluster_b_def cluster_c_def statusDecommissioned_def entry_def)

lemma example_priorities:
  "updatePriority cluster_a = 0" "updatePriority cluster_b = 1" "updatePriority cluster_c = 2"
  "\<not> midUpdate cluster_a" "\<not> midUpdate cluster_b" "midUpdate cluster_c"
  by (simp_all add: updatePriority_cases midUpdate_def cluster_a_def cluster_b_def cluster_c_def)

lemma registry_abc_eligible: "eligible registry_abc = {''a'', ''b'', ''c''}"
  by (auto simp: eligible_def registry_abc_eval entry_def split: if_splits)

lemma registry_abc_order:
  "range_order (clusters registry_abc) [''a'', ''b'', ''c'']"
  "range_order (clusters registry_abc) [''c'', ''b'', ''a'']"
  "range_order (clusters registry_abc) [''b'', ''a'', ''c'']"
  by (auto simp: range_order_def registry_abc_eval)

lemma range_order_SelectNext:
  "range_order (clusters (snd (SelectNext cl ks))) ks' \<longleftrightarrow> range_order (clusters cl) ks'"
  by (simp add: range_order_def SelectNext_dom)

theorem priority_ordering_witness:
  "range_order (clusters registry_abc) [''a'', ''b'', ''c''] \<and>
   SelectNext registry_abc [''a'', ''b'', ''c''] =
     (Some cluster_c, snd (SelectNext registry_abc [''a'', ''b'', ''c''])) \<and>
   clusters registry_abc ''b'' = Some (entry 0 False cluster_b) \<and>
   \<not> processing (entry 0 False cluster_b) \<and>
   updatePriority cluster_b \<le> updatePriority cluster_c \<and>
   clusters registry_abc ''a'' = Some (entry 0 False cluster_a) \<and>
   clusters registry_abc ''c'' = Some (entry 0 False cluster_c) \<and>
   eligible registry_abc = {''a'', ''b'', ''c''} \<and>
   range_order (clusters (snd (SelectNext registry_abc [''a'', ''b'', ''c'']))) [''c'', ''b'', ''a''] \<and>
   range_order (clusters (snd (SelectNext (snd (SelectNext registry_abc [''a'', ''b'', ''c'']))
     [''c'', ''b'', ''a'']))) [''b'', ''a'', ''c''] \<and>
   fst (SelectNext registry_abc [''a'', ''b'', ''c'']) = Some cluster_c \<and>
   fst (SelectNext (snd (SelectNext registry_abc [''a'', ''b'', ''c''])) [''c'', ''b'', ''a''])
     = Some cluster_b \<and>
   fst (SelectNext (snd (SelectNext (snd (SelectNext registry_abc [''a'', ''b'', ''c'']))
     [''c'', ''b'', ''a''])) [''b'', ''a'', ''c'']) = Some cluster_a"
proof -
  let ?ks1 = "[''a'', ''b'', ''c'']" and ?ks2 = "[''c'', ''b'', ''a'']"
    and ?ks3 = "[''b'', ''a'', ''c'']"
  let ?s1 = "snd (SelectNext registry_abc ?ks1)"
  let ?s2 = "snd (SelectNext ?s1 ?ks2)"
  have ea: "clusters registry_abc ''a'' = Some (entry 0 False cluster_a)"
    and eb: "clusters registry_abc ''b'' = Some (entry 0 False cluster_b)"
    and ec: "clusters registry_abc ''c'' = Some (entry 0 False cluster_c)"
    by (simp_all add: registry_abc_eval)
  have cl: "cluster (entry 0 False c) = c" "\<not> processing (entry 0 False c)" for c
    by (simp_all add: entry_def)
  have lc: "LifecycleStatus cluster_a \<noteq> DecommissionRequested"
    "LifecycleStatus cluster_b = DecommissionRequested"
    by (simp_all add: cluster_a_def cluster_b_def)
  have o2: "range_order (clusters ?s1) ?ks2"
    by (simp add: range_order_SelectNext registry_abc_order)
  have o3: "range_order (clusters ?s2) ?ks3"
    by (simp add: range_order_SelectNext registry_abc_order)
  have scenario: "fst (SelectNext registry_abc ?ks1) = Some cluster_c \<and>
      fst (SelectNext ?s1 ?ks2) = Some cluster_b \<and> fst (SelectNext ?s2 ?ks3) = Some cluster_a"
    using priority_ordering [THEN conjunct2,
        of registry_abc "''a''" "entry 0 False cluster_a" "''b''" "entry 0 False cluster_b"
          "''c''" "entry 0 False cluster_c" ?ks1 ?ks2 ?ks3]
      ea eb ec registry_abc_eligible registry_abc_order(1) o2 o3 lc
    by (simp add: cl example_priorities)
  then have sel: "SelectNext registry_abc ?ks1 = (Some cluster_c, ?s1)"
    by (metis prod.collapse)
  have "updatePriority cluster_b \<le> updatePriority cluster_c"
    using priority_ordering [THEN conjunct1,
        of registry_abc ?ks1 cluster_c ?s1 "''b''" "entry 0 False cluster_b"]
      registry_abc_order(1) sel eb
    by (simp add: cl)
  with scenario sel ea eb ec o2 o3 registry_abc_order(1) registry_abc_eligible
  show ?thesis by (simp add: cl)
qed

lemma outranksD:
  assumes "outranks e e'"
  shows "updatePriority (cluster e') \<le> updatePriority (cluster e)"
    and "updatePriority (cluster e') = updatePriority (cluster e)
           \<Longrightarrow> lastProcessed e \<le> lastProcessed e'"
  using assms by (auto simp: outranks_def)

text \<open>
  C3 (fairness tie-break). When \<open>SelectNext\<close> returns a cluster, the entry it marks has
  the highest priority among the entries that were not \<open>processing\<close>, and no such entry
  of the same priority has an older \<open>lastProcessed\<close>. In particular, when exactly two
  normal clusters are not \<open>processing\<close> and the \<open>lastProcessed\<close> of the first is older,
  \<open>SelectNext\<close> returns the first and marks its entry.
\<close>

theorem fairness_tie_break:
  "(range_order (clusters cl) ks \<and> SelectNext cl ks = (Some c, cl')
      \<longrightarrow> (\<exists>k e. clusters cl k = Some e \<and> \<not> processing e \<and> cluster e = c \<and>
             clusters cl' = (clusters cl)(k \<mapsto> e\<lparr>processing := True\<rparr>) \<and>
             (\<forall>k' e'. clusters cl k' = Some e' \<and> \<not> processing e' \<longrightarrow>
                updatePriority (cluster e') \<le> updatePriority (cluster e) \<and>
                (updatePriority (cluster e') = updatePriority (cluster e)
                   \<longrightarrow> lastProcessed e \<le> lastProcessed e'))))
   \<and>
   (clusters cl a = Some ea \<and> clusters cl b = Some eb \<and> eligible cl = {a, b} \<and>
    \<not> midUpdate (cluster ea) \<and> LifecycleStatus (cluster ea) \<noteq> DecommissionRequested \<and>
    \<not> midUpdate (cluster eb) \<and> LifecycleStatus (cluster eb) \<noteq> DecommissionRequested \<and>
    lastProcessed ea < lastProcessed eb \<and> range_order (clusters cl) ks
      \<longrightarrow> SelectNext cl ks =
            (Some (cluster ea), cl\<lparr>clusters := (clusters cl)(a \<mapsto> ea\<lparr>processing := True\<rparr>)\<rparr>))"
proof (intro conjI impI)
  assume "range_order (clusters cl) ks \<and> SelectNext cl ks = (Some c, cl')"
  then obtain k e where e: "clusters cl k = Some e" "\<not> processing e" "cluster e = c"
    and cl': "cl' = cl\<lparr>clusters := (clusters cl)(k \<mapsto> e\<lparr>processing := True\<rparr>)\<rparr>"
    and best: "\<forall>k' e'. clusters cl k' = Some e' \<and> \<not> processing e' \<longrightarrow> outranks e e'"
    using SelectNext_best [of cl ks c cl'] by blast
  from cl' have "clusters cl' = (clusters cl)(k \<mapsto> e\<lparr>processing := True\<rparr>)" by simp
  moreover from best have "\<forall>k' e'. clusters cl k' = Some e' \<and> \<not> processing e' \<longrightarrow>
      updatePriority (cluster e') \<le> updatePriority (cluster e) \<and>
      (updatePriority (cluster e') = updatePriority (cluster e)
         \<longrightarrow> lastProcessed e \<le> lastProcessed e')"
    by (blast dest: outranksD)
  ultimately show "\<exists>k e. clusters cl k = Some e \<and> \<not> processing e \<and> cluster e = c \<and>
      clusters cl' = (clusters cl)(k \<mapsto> e\<lparr>processing := True\<rparr>) \<and>
      (\<forall>k' e'. clusters cl k' = Some e' \<and> \<not> processing e' \<longrightarrow>
         updatePriority (cluster e') \<le> updatePriority (cluster e) \<and>
         (updatePriority (cluster e') = updatePriority (cluster e)
            \<longrightarrow> lastProcessed e \<le> lastProcessed e'))"
    using e by blast
next
  assume h: "clusters cl a = Some ea \<and> clusters cl b = Some eb \<and> eligible cl = {a, b} \<and>
    \<not> midUpdate (cluster ea) \<and> LifecycleStatus (cluster ea) \<noteq> DecommissionRequested \<and>
    \<not> midUpdate (cluster eb) \<and> LifecycleStatus (cluster eb) \<noteq> DecommissionRequested \<and>
    lastProcessed ea < lastProcessed eb \<and> range_order (clusters cl) ks"
  then have ha: "clusters cl a = Some ea" and hb: "clusters cl b = Some eb"
    and els: "eligible cl = {a, b}" and lt: "lastProcessed ea < lastProcessed eb"
    and ord: "range_order (clusters cl) ks"
    by blast+
  from h have pa: "updatePriority (cluster ea) = 0" and pb: "updatePriority (cluster eb) = 0"
    by (simp_all add: updatePriority_cases)
  from els have "a \<in> eligible cl" by simp
  with ha have na: "\<not> processing ea" unfolding eligible_iff by auto
  show "SelectNext cl ks =
      (Some (cluster ea), cl\<lparr>clusters := (clusters cl)(a \<mapsto> ea\<lparr>processing := True\<rparr>)\<rparr>)"
  proof (rule SelectNext_pick [OF ord ha na])
    fix k' e' assume k': "clusters cl k' = Some e'" "\<not> processing e'" "k' \<noteq> a"
    then have "k' \<in> eligible cl" unfolding eligible_iff by blast
    with els k'(3) have "k' = b" by simp
    with k'(1) hb have "e' = eb" by simp
    with pa pb lt show "\<not> outranks e' ea" by (simp add: outranks_def)
  qed
qed

lemma registry_xy_eval:
  "registry_xy = \<lparr>accountFilter = allow_all,
     clusters = [''x'' \<mapsto> entry 7 False cluster_x, ''y'' \<mapsto> entry 9 False cluster_y]\<rparr>"
proof -
  have 1: "UpdateAvailable (NewClusterList allow_all) [cluster_x, cluster_y] [''x'', ''y''] =
      \<lparr>accountFilter = allow_all,
       clusters = [''x'' \<mapsto> entry 0 False cluster_x, ''y'' \<mapsto> entry 0 False cluster_y]\<rparr>"
    by (simp add: NewClusterList_def UpdateAvailable_def allow_all_def
        cluster_x_def cluster_y_def statusDecommissioned_def entry_def)
  have 2: "snd (SelectNext \<lparr>accountFilter = allow_all,
       clusters = [''x'' \<mapsto> entry 0 False cluster_x, ''y'' \<mapsto> entry 0 False cluster_y]\<rparr>
       [''x'', ''y'']) =
      \<lparr>accountFilter = allow_all,
       clusters = [''x'' \<mapsto> entry 0 True cluster_x, ''y'' \<mapsto> entry 0 False cluster_y]\<rparr>"
    by (simp add: SelectNext_def entry_def updatePriority_cases midUpdate_def
        cluster_x_def cluster_y_def fun_upd_twist)
  have 3: "ClusterProcessed \<lparr>accountFilter = allow_all,
       clusters = [''x'' \<mapsto> entry 0 True cluster_x, ''y'' \<mapsto> entry 0 False cluster_y]\<rparr> ''x'' 7 =
      \<lparr>accountFilter = allow_all,
       clusters = [''x'' \<mapsto> entry 7 False cluster_x, ''y'' \<mapsto> entry 0 False cluster_y]\<rparr>"
    by (simp add: ClusterProcessed_def entry_def fun_upd_twist)
  have 4: "snd (SelectNext \<lparr>accountFilter = allow_all,
       clusters = [''x'' \<mapsto> entry 7 False cluster_x, ''y'' \<mapsto> entry 0 False cluster_y]\<rparr>
       [''y'', ''x'']) =
      \<lparr>accountFilter = allow_all,
       clusters = [''x'' \<mapsto> entry 7 False cluster_x, ''y'' \<mapsto> entry 0 True cluster_y]\<rparr>"
    by (simp add: SelectNext_def entry_def updatePriority_cases midUpdate_def
        cluster_x_def cluster_y_def fun_upd_twist)
  have 5: "ClusterProcessed \<lparr>accountFilter = allow_all,
       clusters = [''x'' \<mapsto> entry 7 False cluster_x, ''y'' \<mapsto> entry 0 True cluster_y]\<rparr> ''y'' 9 =
      \<lparr>accountFilter = allow_all,
       clusters = [''x'' \<mapsto> entry 7 False cluster_x, ''y'' \<mapsto> entry 9 False cluster_y]\<rparr>"
    by (simp add: ClusterProcessed_def entry_def)
  show ?thesis by (simp add: registry_xy_def 1 2 3 4 5)
qed

theorem fairness_tie_break_witness:
  "range_order (clusters registry_xy) [''y'', ''x''] \<and>
   SelectNext registry_xy [''y'', ''x''] =
     (Some cluster_x, snd (SelectNext registry_xy [''y'', ''x''])) \<and>
   clusters registry_xy ''x'' = Some (entry 7 False cluster_x) \<and>
   clusters registry_xy ''y'' = Some (entry 9 False cluster_y) \<and>
   eligible registry_xy = {''x'', ''y''} \<and>
   lastProcessed (entry 7 False cluster_x) < lastProcessed (entry 9 False cluster_y) \<and>
   (\<exists>k e. clusters registry_xy k = Some e \<and> \<not> processing e \<and> cluster e = cluster_x \<and>
      clusters (snd (SelectNext registry_xy [''y'', ''x''])) =
        (clusters registry_xy)(k \<mapsto> e\<lparr>processing := True\<rparr>) \<and>
      lastProcessed e \<le> 9)"
proof -
  let ?ks = "[''y'', ''x'']"
  have ex: "clusters registry_xy ''x'' = Some (entry 7 False cluster_x)"
    and ey: "clusters registry_xy ''y'' = Some (entry 9 False cluster_y)"
    by (simp_all add: registry_xy_eval)
  have ord: "range_order (clusters registry_xy) ?ks"
    by (auto simp: range_order_def registry_xy_eval)
  have el: "eligible registry_xy = {''x'', ''y''}"
    by (auto simp: eligible_def registry_xy_eval entry_def split: if_splits)
  have normal: "\<not> midUpdate cluster_x" "LifecycleStatus cluster_x \<noteq> DecommissionRequested"
    "\<not> midUpdate cluster_y" "LifecycleStatus cluster_y \<noteq> DecommissionRequested"
    by (simp_all add: midUpdate_def cluster_x_def cluster_y_def)
  have en: "cluster (entry t p c) = c" "lastProcessed (entry t p c) = t"
    "processing (entry t p c) = p" for t p c
    by (simp_all add: entry_def)
  have sel: "SelectNext registry_xy ?ks = (Some cluster_x,
      registry_xy\<lparr>clusters := (clusters registry_xy)(''x'' \<mapsto>
        (entry 7 False cluster_x)\<lparr>processing := True\<rparr>)\<rparr>)"
    using fairness_tie_break [THEN conjunct2,
        of registry_xy "''x''" "entry 7 False cluster_x" "''y''" "entry 9 False cluster_y" ?ks]
      ex ey el ord normal
    by (simp add: en)
  then have sel': "SelectNext registry_xy ?ks = (Some cluster_x, snd (SelectNext registry_xy ?ks))"
    by simp
  from fairness_tie_break [THEN conjunct1, of registry_xy ?ks cluster_x
      "snd (SelectNext registry_xy ?ks)"] ord sel'
  obtain k e where e: "clusters registry_xy k = Some e" "\<not> processing e" "cluster e = cluster_x"
    "clusters (snd (SelectNext registry_xy ?ks)) =
       (clusters registry_xy)(k \<mapsto> e\<lparr>processing := True\<rparr>)"
    and best: "\<forall>k' e'. clusters registry_xy k' = Some e' \<and> \<not> processing e' \<longrightarrow>
        updatePriority (cluster e') \<le> updatePriority (cluster e) \<and>
        (updatePriority (cluster e') = updatePriority (cluster e)
           \<longrightarrow> lastProcessed e \<le> lastProcessed e')"
    by blast
  have "updatePriority cluster_y = updatePriority cluster_x"
    using normal by (simp add: updatePriority_cases)
  with best [rule_format, of "''y''" "entry 9 False cluster_y"] ey e(3)
  have "lastProcessed e \<le> 9" by (simp add: en)
  with e have "\<exists>k e. clusters registry_xy k = Some e \<and> \<not> processing e \<and> cluster e = cluster_x \<and>
      clusters (snd (SelectNext registry_xy ?ks)) =
        (clusters registry_xy)(k \<mapsto> e\<lparr>processing := True\<rparr>) \<and> lastProcessed e \<le> 9"
    by blast
  with ord sel' ex ey el show ?thesis by (simp add: en)
qed

lemma registry_x_busy_eval:
  "registry_x_busy = \<lparr>accountFilter = allow_all,
     clusters = [''x'' \<mapsto> entry 0 True cluster_x]\<rparr>"
  by (simp add: registry_x_busy_def registry_x_eval SelectNext_def entry_def)

text \<open>
  C4 as stated fails: an entry that is \<open>processing\<close> stays in the registry when
  \<open>UpdateAvailable\<close> receives its cluster as \<open>Decommissioned\<close> (the second loop skips
  entries that are being processed), and a cluster listed twice, once as
  \<open>Decommissioned\<close> and once as active, is tracked.
\<close>

theorem decommission_filtering_counterexample:
  "cluster_x_gone \<in> set [cluster_x_gone] \<and>
   LifecycleStatus cluster_x_gone = Decommissioned \<and>
   range_order (ingested registry_x_busy [cluster_x_gone]) [''x''] \<and>
   clusters (UpdateAvailable registry_x_busy [cluster_x_gone] [''x'']) (ID cluster_x_gone) =
     Some (entry 0 True cluster_x) \<and>
   range_order (ingested (NewClusterList allow_all) [cluster_x_gone, cluster_x]) [''x''] \<and>
   clusters (UpdateAvailable (NewClusterList allow_all) [cluster_x_gone, cluster_x] [''x''])
     (ID cluster_x_gone) = Some (entry 0 False cluster_x)"
  by (simp add: registry_x_busy_eval cluster_x_gone_def cluster_x_def UpdateAvailable_def
      ingested_def range_order_def statusDecommissioned_def entry_def NewClusterList_def
      allow_all_def)

text \<open>
  C4 (decommission filtering), amended. Let \<open>c\<close> be a cluster of the input whose status
  is \<open>Decommissioned\<close> and whose ID no accepted cluster of the same input carries. After
  \<open>UpdateAvailable\<close> the registry has an entry under the ID of \<open>c\<close> only if it had one
  before that was \<open>processing\<close>, and that entry is then unchanged: the cluster is never
  newly tracked, and an entry that is not being processed is removed.
\<close>

theorem decommission_filtering:
  "c \<in> set cs \<and> LifecycleStatus c = Decommissioned \<and>
   ID c \<notin> ID ` set (accepted (accountFilter cl) cs) \<and>
   range_order (ingested cl cs) ks
     \<longrightarrow> clusters (UpdateAvailable cl cs ks) (ID c) =
          (case clusters cl (ID c) of
             None \<Rightarrow> None
           | Some e \<Rightarrow> if processing e then Some e else None)"
proof
  assume h: "c \<in> set cs \<and> LifecycleStatus c = Decommissioned \<and>
    ID c \<notin> ID ` set (accepted (accountFilter cl) cs) \<and> range_order (ingested cl cs) ks"
  then have absent: "ID c \<notin> ID ` set (accepted (accountFilter cl) cs)"
    and ord: "range_order (ingested cl cs) ks"
    by blast+
  have same: "ingested cl cs (ID c) = clusters cl (ID c)"
    unfolding ingested_def using absent by (rule ingest_absent)
  show "clusters (UpdateAvailable cl cs ks) (ID c) =
      (case clusters cl (ID c) of None \<Rightarrow> None | Some e \<Rightarrow> if processing e then Some e else None)"
  proof (cases "clusters cl (ID c)")
    case None
    with same show ?thesis by (simp add: UpdateAvailable_clusters Let_def)
  next
    case (Some e)
    with same ord have "ID c \<in> set ks" by (auto simp: range_order_def)
    with same Some absent show ?thesis by (simp add: UpdateAvailable_clusters Let_def)
  qed
qed

lemma entry_simps:
  "cluster (entry t p c) = c" "lastProcessed (entry t p c) = t" "processing (entry t p c) = p"
  by (simp_all add: entry_def)

theorem decommission_filtering_witness:
  "cluster_x_gone \<in> set [cluster_x_gone, cluster_y] \<and>
   LifecycleStatus cluster_x_gone = Decommissioned \<and>
   ID cluster_x_gone \<notin> ID ` set (accepted (accountFilter registry_x) [cluster_x_gone, cluster_y]) \<and>
   range_order (ingested registry_x [cluster_x_gone, cluster_y]) [''y'', ''x''] \<and>
   clusters registry_x (ID cluster_x_gone) = Some (entry 0 False cluster_x) \<and>
   clusters (UpdateAvailable registry_x [cluster_x_gone, cluster_y] [''y'', ''x''])
     (ID cluster_x_gone) = None"
proof -
  have 1: "cluster_x_gone \<in> set [cluster_x_gone, cluster_y]" by simp
  have 2: "LifecycleStatus cluster_x_gone = Decommissioned"
    by (simp add: cluster_x_gone_def)
  have 3: "ID cluster_x_gone \<notin>
      ID ` set (accepted (accountFilter registry_x) [cluster_x_gone, cluster_y])"
    by (simp add: accepted_def cluster_x_gone_def cluster_x_def cluster_y_def
        statusDecommissioned_def)
  have 4: "range_order (ingested registry_x [cluster_x_gone, cluster_y]) [''y'', ''x'']"
    by (auto simp: range_order_def ingested_def registry_x_eval cluster_x_gone_def
        cluster_y_def statusDecommissioned_def allow_all_def)
  have 5: "clusters registry_x (ID cluster_x_gone) = Some (entry 0 False cluster_x)"
    by (simp add: registry_x_eval cluster_x_gone_def cluster_x_def entry_def)
  from decommission_filtering [of cluster_x_gone "[cluster_x_gone, cluster_y]" registry_x
      "[''y'', ''x'']"] 1 2 3 4 5
  have "clusters (UpdateAvailable registry_x [cluster_x_gone, cluster_y] [''y'', ''x''])
     (ID cluster_x_gone) = None"
    by (simp add: entry_simps)
  with 1 2 3 4 5 show ?thesis by simp
qed










lemma registry_xy_busy_eval:
  "registry_xy_busy = \<lparr>accountFilter = allow_all,
     clusters = [''x'' \<mapsto> entry 7 True cluster_x, ''y'' \<mapsto> entry 9 False cluster_y]\<rparr>"
  by (simp add: registry_xy_busy_def registry_xy_eval SelectNext_def entry_def
      updatePriority_cases midUpdate_def cluster_x_def cluster_y_def fun_upd_twist)




text \<open>
  C6 (\<open>ClusterProcessed\<close> never fails). \<open>ClusterProcessed\<close> is a total function of the
  registry with no error result. If the ID has an entry, the call sets its
  \<open>processing\<close> flag to false and its \<open>lastProcessed\<close> to the current time and leaves
  every other entry as it is; if the ID has no entry, the registry is unchanged.
\<close>

theorem cluster_processed_total:
  "(clusters cl k = Some e
      \<longrightarrow> ClusterProcessed cl k now =
            cl\<lparr>clusters := (clusters cl)(k \<mapsto> e\<lparr>processing := False, lastProcessed := now\<rparr>)\<rparr> \<and>
          (\<forall>k'. k' \<noteq> k \<longrightarrow> clusters (ClusterProcessed cl k now) k' = clusters cl k'))
   \<and>
   (clusters cl k = None \<longrightarrow> ClusterProcessed cl k now = cl)"
  by (simp add: ClusterProcessed_def)

theorem cluster_processed_total_witness:
  "clusters registry_xy_busy ''x'' = Some (entry 7 True cluster_x) \<and>
   ClusterProcessed registry_xy_busy ''x'' 11 =
     registry_xy_busy\<lparr>clusters := (clusters registry_xy_busy)(''x'' \<mapsto>
       (entry 7 True cluster_x)\<lparr>processing := False, lastProcessed := 11\<rparr>)\<rparr> \<and>
   clusters (ClusterProcessed registry_xy_busy ''x'' 11) ''y'' = clusters registry_xy_busy ''y'' \<and>
   clusters registry_xy_busy ''z'' = None \<and>
   ClusterProcessed registry_xy_busy ''z'' 11 = registry_xy_busy"
proof -
  have ex: "clusters registry_xy_busy ''x'' = Some (entry 7 True cluster_x)"
    and ez: "clusters registry_xy_busy ''z'' = None"
    by (simp_all add: registry_xy_busy_eval)
  from cluster_processed_total [THEN conjunct1, rule_format, OF ex, of 11]
  have 1: "ClusterProcessed registry_xy_busy ''x'' 11 =
     registry_xy_busy\<lparr>clusters := (clusters registry_xy_busy)(''x'' \<mapsto>
       (entry 7 True cluster_x)\<lparr>processing := False, lastProcessed := 11\<rparr>)\<rparr>"
    and 2: "\<forall>k'. k' \<noteq> ''x'' \<longrightarrow>
      clusters (ClusterProcessed registry_xy_busy ''x'' 11) k' = clusters registry_xy_busy k'"
    by blast+
  from 2 have 3: "clusters (ClusterProcessed registry_xy_busy ''x'' 11) ''y'' =
      clusters registry_xy_busy ''y''"
    by simp
  from cluster_processed_total [THEN conjunct2, rule_format, OF ez, of 11]
  have 4: "ClusterProcessed registry_xy_busy ''z'' 11 = registry_xy_busy" .
  from ex ez 1 3 4 show ?thesis by blast
qed

text \<open>
  C10 (mid-update wins). A cluster that is mid-update and whose lifecycle status is
  decommission-requested gets the priority \<open>updatePriorityAlreadyUpdating\<close>, the highest
  of the three, and not \<open>updatePriorityDecommissionRequested\<close>.
\<close>

theorem mid_update_wins:
  "NextVersion (Status c) \<noteq> [] \<and> NextVersion (Status c) \<noteq> CurrentVersion (Status c) \<and>
   LifecycleStatus c = statusDecommissionRequested
     \<longrightarrow> updatePriority c = updatePriorityAlreadyUpdating \<and>
         updatePriority c \<noteq> updatePriorityDecommissionRequested \<and>
         updatePriorityDecommissionRequested < updatePriorityAlreadyUpdating \<and>
         updatePriorityNormal < updatePriorityDecommissionRequested"
  by (simp add: updatePriority_def updatePriorityAlreadyUpdating_def
      updatePriorityDecommissionRequested_def updatePriorityNormal_def priority_word_facts)

theorem mid_update_wins_witness:
  "NextVersion (Status cluster_d) \<noteq> [] \<and>
   NextVersion (Status cluster_d) \<noteq> CurrentVersion (Status cluster_d) \<and>
   LifecycleStatus cluster_d = statusDecommissionRequested \<and>
   updatePriority cluster_d = updatePriorityAlreadyUpdating \<and>
   updatePriority cluster_d \<noteq> updatePriorityDecommissionRequested"
proof -
  have h: "NextVersion (Status cluster_d) \<noteq> [] \<and>
      NextVersion (Status cluster_d) \<noteq> CurrentVersion (Status cluster_d) \<and>
      LifecycleStatus cluster_d = statusDecommissionRequested"
    by (simp add: cluster_d_def statusDecommissionRequested_def)
  with mid_update_wins [of cluster_d] show ?thesis by blast
qed

section \<open>Properties of the config source\<close>






lemma digits_nonempty: "digits n \<noteq> []"
  by (subst digits.simps) simp


lemma fmt_d_nonempty: "fmt_d i \<noteq> []"
  by (simp add: fmt_d_def digits_nonempty)


















lemma Clean_work: "Clean ''/work'' = ''/work''"
  by code_simp

lemma Clean_work_repo: "Clean ''/work/repo'' = ''/work/repo''"
  by code_simp

lemma regex_example:
  "FindStringSubmatch ''https://example.org/team/repo.git'' = [''/repo.git'', ''repo'', ''.git'']"
  by code_simp



lemma getRepoName_example:
  "getRepoName ''https://example.org/team/repo.git'' = Inr ''repo''"
  unfolding getRepoName_def regex_example by simp

lemma NewGit_example:
  "NewGit sim_os ''/work'' ''https://example.org/team/repo.git'' [] world_x = (Inr git_x, world_x)"
  unfolding NewGit_def getRepoName_example
  by (simp add: Abs_def Clean_work Clean_work_repo joinWith_def git_x_def)






lemma try_lengths_Some:
  "try_lengths r n = Some (name, ext) \<Longrightarrow> n \<le> length (takeWhile word_class r)
     \<Longrightarrow> r \<noteq> [] \<and> word_class (last r)"
proof (induction n)
  case 0
  then show ?case by simp
next
  case (Suc n)
  let ?rest = "drop (Suc n) r"
  show ?case
  proof (cases "length ?rest = 4 \<and> hd ?rest \<noteq> CHR 0x0A \<and> tl ?rest = ''git''")
    case True
    then have ne: "?rest \<noteq> []" by auto
    with True have "last ?rest = CHR ''t''"
      by (cases ?rest) auto
    moreover from ne have "last r = last ?rest" by (simp add: last_drop)
    moreover have "word_class (CHR ''t'')" by (simp add: word_class_def)
    ultimately show ?thesis using ne by auto
  next
    case other: False
    show ?thesis
    proof (cases "?rest = []")
      case True
      with Suc.prems(2) have len: "length (takeWhile word_class r) = length r"
        using length_takeWhile_le [of word_class r] by simp
      then have all: "takeWhile word_class r = r"
        by (metis takeWhile_dropWhile_id append_eq_conv_conj length_0_conv length_append
            add_diff_cancel_left' append_Nil2 diff_is_0_eq' le_refl length_drop)
      from Suc.prems(2) len have ne: "r \<noteq> []" by auto
      from all have "\<forall>x \<in> set r. word_class x" by (metis set_takeWhileD)
      with ne show ?thesis by simp
    next
      case False
      from other have c1: "(length ?rest = 4 \<and> hd ?rest \<noteq> CHR 0x0A \<and> tl ?rest = ''git'') = False"
        by simp
      from False have c2: "(?rest = []) = False" by simp
      from Suc.prems(1) have "try_lengths r n = Some (name, ext)"
        by (simp only: try_lengths.simps Let_def c1 c2 if_False)
      with Suc.IH Suc.prems(2) show ?thesis by simp
    qed
  qed
qed

lemma match_here_Some:
  assumes "match_here s = Some m"
  shows "s \<noteq> [] \<and> word_class (last s) \<and> length m = 3"
proof -
  let ?slash = "if s \<noteq> [] \<and> hd s = CHR ''/'' then ''/'' else []"
  let ?r = "drop (length ?slash) s"
  from assms obtain name ext where
    t: "try_lengths ?r (length (takeWhile word_class ?r)) = Some (name, ext)"
    and m: "m = [?slash @ name @ ext, name, ext]"
    by (auto simp: match_here_def Let_def split: option.splits)
  from try_lengths_Some [OF t le_refl] have r: "?r \<noteq> []" "word_class (last ?r)" by blast+
  from r(1) have "s \<noteq> []" by auto
  moreover from r(1) have "last ?r = last s" by (simp add: last_drop)
  ultimately show ?thesis using r(2) m by simp
qed

lemma match_here_single:
  assumes "word_class c"
  shows "match_here [c] \<noteq> None"
proof -
  have "\<not> word_class (CHR ''/'')" by (simp add: word_class_def)
  with assms have "c \<noteq> CHR ''/''" by auto
  with assms show ?thesis by (simp add: match_here_def Let_def)
qed

lemma FindStringSubmatch_length: "FindStringSubmatch s = [] \<or> length (FindStringSubmatch s) = 3"
proof (induction s)
  case Nil
  then show ?case by simp
next
  case (Cons c cs)
  then show ?case
    by (cases "match_here (c # cs)") (auto dest: match_here_Some)
qed

lemma FindStringSubmatch_no_match:
  "FindStringSubmatch s = [] \<longleftrightarrow> s = [] \<or> \<not> word_class (last s)"
proof (induction s)
  case Nil
  then show ?case by simp
next
  case (Cons c cs)
  show ?case
  proof (cases "match_here (c # cs)")
    case (Some m)
    from match_here_Some [OF Some] have "word_class (last (c # cs))" "m \<noteq> []" by auto
    with Some show ?thesis by simp
  next
    case None
    show ?thesis
    proof (cases "cs = []")
      case True
      with None match_here_single [of c] have "\<not> word_class c" by auto
      with None True show ?thesis by simp
    next
      case False
      with None Cons.IH show ?thesis by simp
    qed
  qed
qed


section \<open>The claims about the config source\<close>






text \<open>
  C9 (malformed repository URLs). When the repository URL does not match
  \<open>repoNameRE\<close>, which is exactly when it is empty or its last character is not in
  \<^verbatim>\<open>[\w-]\<close>, \<open>getRepoName\<close> returns its error and \<open>NewGit\<close> returns an error
  with the world as it was. \<open>NewGit\<close> never changes the world: it creates no directory
  and runs no subprocess.
\<close>

theorem malformed_url_fails_fast:
  "(FindStringSubmatch url = []
      \<longrightarrow> getRepoName url = Inl (RepoNameError url) \<and>
          (\<exists>err. NewGit sys dir url key w = (Inl err, w)))
   \<and> (FindStringSubmatch url = [] \<longleftrightarrow> url = [] \<or> \<not> word_class (last url))
   \<and> snd (NewGit sys dir url key w) = w"
proof (intro conjI impI)
  assume no: "FindStringSubmatch url = []"
  then show name: "getRepoName url = Inl (RepoNameError url)"
    by (simp add: getRepoName_def)
  then show "\<exists>err. NewGit sys dir url key w = (Inl err, w)"
    by (cases "Abs sys dir w") (simp_all add: NewGit_def)
next
  show "FindStringSubmatch url = [] \<longleftrightarrow> url = [] \<or> \<not> word_class (last url)"
    by (rule FindStringSubmatch_no_match)
next
  show "snd (NewGit sys dir url key w) = w"
    by (simp add: NewGit_def split: sum.splits)
qed

theorem malformed_url_fails_fast_witness:
  "FindStringSubmatch ''https://example.org/team/repo/'' = [] \<and>
   getRepoName ''https://example.org/team/repo/'' =
     Inl (RepoNameError ''https://example.org/team/repo/'') \<and>
   NewGit sim_os ''/work'' ''https://example.org/team/repo/'' [] world_x =
     (Inl (RepoNameError ''https://example.org/team/repo/''), world_x)"
proof -
  have no: "FindStringSubmatch ''https://example.org/team/repo/'' = []"
    by code_simp
  from malformed_url_fails_fast [of "''https://example.org/team/repo/''" sim_os "''/work''" "[]"
      world_x] no
  have name: "getRepoName ''https://example.org/team/repo/'' =
      Inl (RepoNameError ''https://example.org/team/repo/'')"
    and "\<exists>err. NewGit sim_os ''/work'' ''https://example.org/team/repo/'' [] world_x =
      (Inl err, world_x)"
    by blast+
  have "NewGit sim_os ''/work'' ''https://example.org/team/repo/'' [] world_x =
      (Inl (RepoNameError ''https://example.org/team/repo/''), world_x)"
    unfolding NewGit_def name by (simp add: Abs_def)
  with no name show ?thesis by blast
qed

end
